theory Spec2Isabelle
  imports Main "HOL-Library.Multiset" "HOL-Library.Word"
begin

section \<open>The PDF document writer (PDFDocumentWriter.ts)\<close>

text \<open>
  The writer turns a document (header, object index, running maximum object number)
  into the bytes of a PDF file, along one of two paths: \<open>saveToBytes\<close> (classic
  cross-reference table and dictionary trailer) and \<open>saveToBytesWithObjectStreams\<close>
  (object stream, cross-reference stream and pointer trailer).

  Object numbers, sizes and offsets are JavaScript numbers holding non-negative
  integers; they are modelled as \<open>nat\<close>. Array lengths and the sizes of buffers stay
  far below \<open>2 ^ 53\<close>, where JavaScript adds integers exactly. An object number is
  whatever the document holds, so the one addition on an object number (l.108) is
  modelled as the addition of doubles, \<open>plusOne\<close> below. A \<open>Uint8Array\<close> is a list
  of bytes.
\<close>

subsection \<open>Data model\<close>

type_synonym byte = "8 word"

record PDFIndirectReference =
  objectNumber :: nat
  generationNumber :: nat

text \<open>
  Modelled from the spec: the classes of \<open>core/pdf-objects\<close> and
  \<open>core/pdf-structures\<close> are not part of the sources at hand. The writer only asks an
  object whether it is an instance of \<open>PDFCatalog\<close> or of \<open>PDFStream\<close>; the spec
  describes this as a closed tag over Stream, Catalog and anything else. The argument of
  each constructor is the object's own content, opaque to the writer.
\<close>

datatype PDFObject =
    PDFCatalog "byte list"
  | PDFStream "byte list"
  | PDFOther "byte list"

fun isCatalog :: "PDFObject \<Rightarrow> bool" where
  "isCatalog (PDFCatalog _) = True"
| "isCatalog _ = False"

fun isStream :: "PDFObject \<Rightarrow> bool" where
  "isStream (PDFStream _) = True"
| "isStream _ = False"

record PDFIndirectObject =
  reference :: PDFIndirectReference
  pdfObject :: PDFObject

text \<open>\<open>PDFIndirectObject.of(object).setReference(ref)\<close>\<close>

definition indirectObject :: "PDFObject \<Rightarrow> PDFIndirectReference \<Rightarrow> PDFIndirectObject" where
  "indirectObject object ref = \<lparr> reference = ref, pdfObject = object \<rparr>"

text \<open>\<open>PDFIndirectReference.forNumbers(objectNumber, generationNumber)\<close>\<close>

definition forNumbers :: "nat \<Rightarrow> nat \<Rightarrow> PDFIndirectReference" where
  "forNumbers n g = \<lparr> objectNumber = n, generationNumber = g \<rparr>"

text \<open>
  The index is a JavaScript \<open>Map\<close> from references to objects. \<open>Map.forEach\<close> visits
  the entries in insertion order, so the index is the list of its entries in that order.
\<close>

type_synonym objectIndex = "(PDFIndirectReference \<times> PDFObject) list"

text \<open>
  Modelled from the spec: everything the writer puts into the buffer (header, indirect
  object, cross-reference table or stream, trailer) offers \<open>bytesSize()\<close> and
  \<open>copyBytesInto(buffer)\<close>, implemented outside the sources at hand. A writable keeps
  the two apart: the size it reports and the bytes it writes.
\<close>

record writable =
  bytesSize :: nat
  bytes :: "byte list"

record PDFDocument =
  header :: writable
  index :: objectIndex
  maxObjNum :: nat

datatype js_error = Error string

datatype PDFValue = PDFNumber nat | PDFReference PDFIndirectReference

text \<open>\<open>PDFDictionary.from(entries, index)\<close>: the entries in the order of the object
  literal, and the index the dictionary was created for.\<close>

datatype PDFDictionary = PDFDictionary "(string \<times> PDFValue) list" objectIndex

text \<open>\<open>PDFTrailer.from(offset, dictionary)\<close>\<close>

datatype PDFTrailer = PDFTrailer nat PDFDictionary

subsection \<open>Collaborators\<close>

text \<open>
  Modelled from the spec: the serialisers and factories the writer calls live outside the
  sources at hand, so they are parameters of the model. Each is a function of exactly the
  arguments the writer passes.
  \<^item> \<open>framed\<close>: an indirect object as a writable (\<open>bytesSize\<close>, \<open>copyBytesInto\<close> of
    \<open>PDFIndirectObject\<close>);
  \<^item> \<open>xrefTable\<close>: the table built by \<open>PDFXRefTableFactory.forIndirectObjects\<close>;
  \<^item> \<open>trailerSection\<close>: a \<open>PDFTrailer\<close> as a writable;
  \<^item> \<open>encodeObjectStream\<close>: \<open>PDFObjectStream.create(index, objects).encode()\<close>;
  \<^item> \<open>xrefStreamSection\<close>: the stream built by
    \<open>PDFXRefStreamFactory.forIndirectObjects\<close>;
  \<^item> \<open>trailerXSection\<close>: \<open>PDFTrailerX.from(offset)\<close> as a writable.
\<close>

record collaborators =
  framed :: "PDFIndirectObject \<Rightarrow> writable"
  xrefTable :: "writable \<Rightarrow> PDFIndirectObject list \<Rightarrow> writable"
  trailerSection :: "PDFTrailer \<Rightarrow> writable"
  encodeObjectStream :: "objectIndex \<Rightarrow> PDFIndirectObject list \<Rightarrow> PDFObject"
  xrefStreamSection ::
    "writable \<Rightarrow> PDFIndirectObject list \<Rightarrow> PDFIndirectObject \<Rightarrow> objectIndex
      \<Rightarrow> PDFIndirectReference \<Rightarrow> writable"
  trailerXSection :: "nat \<Rightarrow> writable"

text \<open>
  Modelled from the spec: \<open>error\<close> of \<open>utils\<close> is not part of the sources at hand;
  the spec makes the missing catalog fatal, so \<open>error(msg)\<close> throws.
\<close>

definition error :: "string \<Rightarrow> js_error + 'a" where
  "error msg = Inl (Error msg)"

text \<open>
  Modelled from the spec: \<open>PDFXRefTableFactory.forIndirectObjects(header, sortedIndex)\<close>
  returns the table and the offset at which it starts: the header's byte length plus the
  byte lengths of the objects, in order, as a running cursor.
\<close>

definition XRefTable_forIndirectObjects ::
  "collaborators \<Rightarrow> writable \<Rightarrow> PDFIndirectObject list \<Rightarrow> writable \<times> nat" where
  "XRefTable_forIndirectObjects K hdr sortedIndex =
     (xrefTable K hdr sortedIndex,
      fold (\<lambda>indirectObj offset. offset + bytesSize (framed K indirectObj)) sortedIndex
        (bytesSize hdr))"

text \<open>
  Modelled from the spec: \<open>PDFXRefStreamFactory.forIndirectObjects\<close> returns the offset
  at which the cross-reference stream starts (header length plus the byte lengths of the
  stream objects) and the stream.
\<close>

definition XRefStream_forIndirectObjects ::
  "collaborators \<Rightarrow> writable \<Rightarrow> PDFIndirectObject list \<Rightarrow> PDFIndirectObject \<Rightarrow> objectIndex
    \<Rightarrow> PDFIndirectReference \<Rightarrow> nat \<times> writable" where
  "XRefStream_forIndirectObjects K hdr streamObjs objectStreamObj idx catalog =
     (fold (\<lambda>indirectObj offset. offset + bytesSize (framed K indirectObj)) streamObjs
        (bytesSize hdr),
      xrefStreamSection K hdr streamObjs objectStreamObj idx catalog)"

subsection \<open>Buffers\<close>

text \<open>
  Modelled from the spec: \<open>copyBytesInto(buffer)\<close> writes the writable's bytes at the
  front of the view it is given and returns the view behind them
  (\<open>buffer.subarray(n)\<close>). A view is the underlying buffer together with the offset at
  which the view starts. A typed array ignores a write past its end, as \<open>list_update\<close>
  does, and \<open>subarray\<close> clamps its start to the length.
\<close>

fun writeBytes :: "byte list \<Rightarrow> nat \<Rightarrow> byte list \<Rightarrow> byte list" where
  "writeBytes [] start buffer = buffer"
| "writeBytes (b # bs) start buffer = writeBytes bs (Suc start) (buffer[start := b])"

definition copyBytesInto :: "writable \<Rightarrow> byte list \<times> nat \<Rightarrow> byte list \<times> nat" where
  "copyBytesInto s remaining =
     (case remaining of (buffer, start) \<Rightarrow>
        (writeBytes (bytes s) start buffer, min (start + length (bytes s)) (length buffer)))"

text \<open>\<open>new Uint8Array(n)\<close>: \<open>n\<close> zero bytes.\<close>

definition Uint8Array :: "nat \<Rightarrow> byte list" where
  "Uint8Array n = replicate n 0"

subsection \<open>JavaScript numbers\<close>

text \<open>
  \<open>n + 1\<close> on a JavaScript number \<open>n\<close> that holds a non-negative integer. Numbers are
  IEEE 754 doubles and the sum is the double nearest to the exact sum, a tie going to the
  double with the even mantissa. Below \<open>2 ^ 53 = 9007199254740992\<close> the sum is exact.
  From \<open>2 ^ 53\<close> up to \<open>2 ^ 54 = 18014398509481984\<close> the doubles are the even
  numbers \<open>2 * m\<close>, and \<open>n + 1\<close> lies midway between \<open>n\<close> and \<open>n + 2\<close>: the
  result is \<open>n\<close> when the mantissa \<open>m\<close> is even, \<open>n + 2\<close> when it is odd. From
  \<open>2 ^ 54\<close> on the doubles are at least 4 apart and the result is \<open>n\<close>. (An odd
  number from \<open>2 ^ 53\<close> on is not the value of any double.)
\<close>

definition plusOne :: "nat \<Rightarrow> nat" where
  "plusOne n =
     (if n < 9007199254740992 then n + 1
      else if n < 18014398509481984 \<and> odd (n div 2) then n + 2
      else n)"

subsection \<open>State of a call\<close>

text \<open>
  What a call of the writer can touch: the document it is given (shared with the caller)
  and the output buffers it allocates, recorded by size.
\<close>

record state =
  doc :: PDFDocument
  allocated :: "nat list"

definition enter :: "PDFDocument \<Rightarrow> state" where
  "enter pdfDoc = \<lparr> doc = pdfDoc, allocated = [] \<rparr>"

subsection \<open>sortIndex\<close>

text \<open>
  The entries are pushed onto a fresh array, which is then sorted in place with the
  comparator \<open>a.objectNumber - b.objectNumber\<close>, that is by ascending object number.
  Entries with the same object number keep their order (\<open>Array.prototype.sort\<close> is
  stable since ECMAScript 2019, as \<open>sort_key\<close> is). The function returns the array;
  the model also returns the index as the call leaves it.
\<close>

definition sortIndex :: "objectIndex \<Rightarrow> PDFIndirectObject list \<times> objectIndex" where
  "sortIndex idx =
     (let indexArr = [];
          indexArr = fold (\<lambda>(ref, object) arr. arr @ [indirectObject object ref]) idx indexArr;
          indexArr = sort_key (\<lambda>u. objectNumber (reference u)) indexArr
      in (indexArr, idx))"

subsection \<open>saveToBytes\<close>

record classicPlan =
  sortedIndex :: "PDFIndirectObject list"
  catalogRef :: PDFIndirectReference
  table :: writable
  tableOffset :: nat
  trailer :: PDFTrailer

text \<open>Lines 40 to 60: everything up to the trailer.\<close>

definition saveToBytes_plan ::
  "collaborators \<Rightarrow> state \<Rightarrow> (js_error + classicPlan) \<times> state" where
  "saveToBytes_plan K s =
     (let (sorted_idx, idx') = sortIndex (index (doc s));
          s = s\<lparr> doc := (doc s)\<lparr> index := idx' \<rparr> \<rparr>;
          pdfDoc = doc s
      in case List.find (\<lambda>u. isCatalog (pdfObject u)) sorted_idx of
           None \<Rightarrow> (error ''Missing PDFCatalog'', s)
         | Some found \<Rightarrow>
             (let (tbl, tblOffset) =
                    XRefTable_forIndirectObjects K (header pdfDoc) sorted_idx;
                  trl = PDFTrailer tblOffset
                          (PDFDictionary
                             [(''Size'', PDFNumber (length sorted_idx + 1)),
                              (''Root'', PDFReference (reference found))]
                             (index pdfDoc))
              in (Inr \<lparr> sortedIndex = sorted_idx, catalogRef = reference found,
                        table = tbl, tableOffset = tblOffset, trailer = trl \<rparr>, s)))"

text \<open>
  Lines 62 to 72: the buffer. The call returns \<open>buffer\<close>; the model returns it together
  with the offset at which the last \<open>remaining\<close> view starts.
\<close>

definition saveToBytes_exec ::
  "collaborators \<Rightarrow> state \<Rightarrow> (js_error + byte list \<times> nat) \<times> state" where
  "saveToBytes_exec K s =
     (case saveToBytes_plan K s of
        (Inl e, s') \<Rightarrow> (Inl e, s')
      | (Inr P, s') \<Rightarrow>
          (let bufferSize = tableOffset P + bytesSize (table P)
                              + bytesSize (trailerSection K (trailer P));
               buffer = Uint8Array bufferSize;
               s' = s'\<lparr> allocated := allocated s' @ [bufferSize] \<rparr>;
               remaining = copyBytesInto (header (doc s')) (buffer, 0);
               remaining = fold (\<lambda>indirectObj rem. copyBytesInto (framed K indirectObj) rem)
                             (sortedIndex P) remaining;
               remaining = copyBytesInto (table P) remaining;
               remaining = copyBytesInto (trailerSection K (trailer P)) remaining
           in (Inr remaining, s')))"

definition saveToBytes :: "collaborators \<Rightarrow> PDFDocument \<Rightarrow> js_error + byte list" where
  "saveToBytes K pdfDoc = map_sum id fst (fst (saveToBytes_exec K (enter pdfDoc)))"

subsection \<open>saveToBytesWithObjectStreams\<close>

text \<open>
  The callback of \<open>index.forEach\<close>, on the three variables it assigns:
  \<open>pdfCatalogRef\<close> (undefined at first), \<open>streamObjects\<close> and \<open>nonStreamObjects\<close>.
\<close>

definition partitionStep ::
  "PDFIndirectReference \<times> PDFObject
    \<Rightarrow> PDFIndirectReference option \<times> PDFIndirectObject list \<times> PDFIndirectObject list
    \<Rightarrow> PDFIndirectReference option \<times> PDFIndirectObject list \<times> PDFIndirectObject list" where
  "partitionStep entry vars =
     (case (entry, vars) of ((ref, object), (pdfCatalogRef, streamObjs, nonStreamObjs)) \<Rightarrow>
        (let pdfCatalogRef = (if isCatalog object then Some ref else pdfCatalogRef)
         in if isStream object
            then (pdfCatalogRef, streamObjs @ [indirectObject object ref], nonStreamObjs)
            else (pdfCatalogRef, streamObjs, nonStreamObjs @ [indirectObject object ref])))"

record compactPlan =
  pdfCatalogRef :: PDFIndirectReference
  streamObjects :: "PDFIndirectObject list"
  nonStreamObjects :: "PDFIndirectObject list"
  objectStreamIndObj :: PDFIndirectObject
  offset :: nat
  xrefStream :: writable
  trailerX :: writable

text \<open>Lines 85 to 125: everything up to the pointer trailer.\<close>

definition saveToBytesWithObjectStreams_plan ::
  "collaborators \<Rightarrow> state \<Rightarrow> (js_error + compactPlan) \<times> state" where
  "saveToBytesWithObjectStreams_plan K s =
     (let pdfDoc = doc s;
          (catalog, streamObjs, nonStreamObjs) =
             fold partitionStep (index pdfDoc) (None, [], [])
      in case catalog of
           None \<Rightarrow> (error ''Missing PDFCatalog'', s)
         | Some catalog_ref \<Rightarrow>
             (let maxNum = maxObjNum pdfDoc;
                  objectStream = encodeObjectStream K (index pdfDoc) nonStreamObjs;
                  objectStreamRef = forNumbers (plusOne maxNum) 0;
                  objectStreamObj = indirectObject objectStream objectStreamRef;
                  streamObjs = streamObjs @ [objectStreamObj];
                  (off, xref) =
                     XRefStream_forIndirectObjects K (header pdfDoc) streamObjs
                       objectStreamObj (index pdfDoc) catalog_ref;
                  trl = trailerXSection K off
              in (Inr \<lparr> pdfCatalogRef = catalog_ref, streamObjects = streamObjs,
                        nonStreamObjects = nonStreamObjs,
                        objectStreamIndObj = objectStreamObj, offset = off,
                        xrefStream = xref, trailerX = trl \<rparr>, s)))"

text \<open>Lines 129 to 140: the buffer.\<close>

definition saveToBytesWithObjectStreams_exec ::
  "collaborators \<Rightarrow> state \<Rightarrow> (js_error + byte list \<times> nat) \<times> state" where
  "saveToBytesWithObjectStreams_exec K s =
     (case saveToBytesWithObjectStreams_plan K s of
        (Inl e, s') \<Rightarrow> (Inl e, s')
      | (Inr P, s') \<Rightarrow>
          (let bufferSize = offset P + bytesSize (xrefStream P) + bytesSize (trailerX P);
               buffer = Uint8Array bufferSize;
               s' = s'\<lparr> allocated := allocated s' @ [bufferSize] \<rparr>;
               remaining = copyBytesInto (header (doc s')) (buffer, 0);
               remaining = fold (\<lambda>obj remBytes. copyBytesInto (framed K obj) remBytes)
                             (streamObjects P) remaining;
               remaining = copyBytesInto (xrefStream P) remaining;
               remaining = copyBytesInto (trailerX P) remaining
           in (Inr remaining, s')))"

definition saveToBytesWithObjectStreams ::
  "collaborators \<Rightarrow> PDFDocument \<Rightarrow> js_error + byte list" where
  "saveToBytesWithObjectStreams K pdfDoc =
     map_sum id fst (fst (saveToBytesWithObjectStreams_exec K (enter pdfDoc)))"

subsection \<open>Both entry points\<close>

datatype entryPoint = SaveToBytes | SaveToBytesWithObjectStreams

fun run ::
  "entryPoint \<Rightarrow> collaborators \<Rightarrow> state \<Rightarrow> (js_error + byte list \<times> nat) \<times> state" where
  "run SaveToBytes K s = saveToBytes_exec K s"
| "run SaveToBytesWithObjectStreams K s = saveToBytesWithObjectStreams_exec K s"

fun call :: "entryPoint \<Rightarrow> collaborators \<Rightarrow> PDFDocument \<Rightarrow> js_error + byte list" where
  "call SaveToBytes K pdfDoc = saveToBytes K pdfDoc"
| "call SaveToBytesWithObjectStreams K pdfDoc = saveToBytesWithObjectStreams K pdfDoc"

subsection \<open>Notions used in the statements\<close>

text \<open>The indirect object unit of an index entry: its reference and its object.\<close>

definition unitOf :: "PDFIndirectReference \<times> PDFObject \<Rightarrow> PDFIndirectObject" where
  "unitOf entry = \<lparr> reference = fst entry, pdfObject = snd entry \<rparr>"

text \<open>The entries of an index holding a catalog, and those holding a stream.\<close>

definition catalogEntries :: "objectIndex \<Rightarrow> objectIndex" where
  "catalogEntries idx = filter (\<lambda>entry. isCatalog (snd entry)) idx"

definition streamEntries :: "objectIndex \<Rightarrow> objectIndex" where
  "streamEntries idx = filter (\<lambda>entry. isStream (snd entry)) idx"

definition nonStreamEntries :: "objectIndex \<Rightarrow> objectIndex" where
  "nonStreamEntries idx = filter (\<lambda>entry. \<not> isStream (snd entry)) idx"

text \<open>
  A buffer of \<open>n\<close> bytes that holds \<open>content\<close> from offset 0 on (cut at the end of the
  buffer, followed by zeros when shorter), with the view left behind the content.
\<close>

definition laidOut :: "nat \<Rightarrow> byte list \<Rightarrow> byte list \<times> nat" where
  "laidOut n content = (take n (content @ replicate n 0), min n (length content))"

text \<open>A writable whose reported size is the number of bytes it writes.\<close>

definition exact :: "writable \<Rightarrow> bool" where
  "exact w = (bytesSize w = length (bytes w))"

definition exactSizes :: "collaborators \<Rightarrow> PDFDocument \<Rightarrow> bool" where
  "exactSizes K pdfDoc =
     (exact (header pdfDoc) \<and> (\<forall>u. exact (framed K u))
      \<and> (\<forall>h us. exact (xrefTable K h us)) \<and> (\<forall>t. exact (trailerSection K t))
      \<and> (\<forall>h us obj idx c. exact (xrefStreamSection K h us obj idx c))
      \<and> (\<forall>n. exact (trailerXSection K n)))"

text \<open>
  The sections an entry point writes, in the order of its \<open>copyBytesInto\<close> calls: the
  header, the body units, the cross-reference section, the trailer. None when the call
  throws.
\<close>

fun written :: "entryPoint \<Rightarrow> collaborators \<Rightarrow> PDFDocument \<Rightarrow> writable list" where
  "written SaveToBytes K pdfDoc =
     (case fst (saveToBytes_plan K (enter pdfDoc)) of
        Inl e \<Rightarrow> []
      | Inr P \<Rightarrow> header pdfDoc # map (framed K) (sortedIndex P)
                   @ [table P, trailerSection K (trailer P)])"
| "written SaveToBytesWithObjectStreams K pdfDoc =
     (case fst (saveToBytesWithObjectStreams_plan K (enter pdfDoc)) of
        Inl e \<Rightarrow> []
      | Inr P \<Rightarrow> header pdfDoc # map (framed K) (streamObjects P)
                   @ [xrefStream P, trailerX P])"

subsection \<open>A concrete document and concrete collaborators\<close>

definition exactly :: "byte list \<Rightarrow> writable" where
  "exactly bs = \<lparr> bytesSize = length bs, bytes = bs \<rparr>"

fun content :: "PDFObject \<Rightarrow> byte list" where
  "content (PDFCatalog c) = c"
| "content (PDFStream c) = c"
| "content (PDFOther c) = c"

fun exampleTrailer :: "PDFTrailer \<Rightarrow> writable" where
  "exampleTrailer (PDFTrailer off (PDFDictionary entries idx)) =
     exactly [116, of_nat off, of_nat (length entries)]"

definition exampleCollaborators :: collaborators where
  "exampleCollaborators =
     \<lparr> framed = (\<lambda>u. exactly (of_nat (objectNumber (reference u)) # content (pdfObject u))),
       xrefTable = (\<lambda>h us. exactly (replicate (length us + 1) 120)),
       trailerSection = exampleTrailer,
       encodeObjectStream =
         (\<lambda>idx us. PDFStream (map (\<lambda>u. of_nat (objectNumber (reference u))) us)),
       xrefStreamSection =
         (\<lambda>h us obj idx c. exactly [88, of_nat (objectNumber c), of_nat (length us)]),
       trailerXSection = (\<lambda>off. exactly [of_nat off]) \<rparr>"

text \<open>The scenario of the spec: 1 is a catalog, 2 a dictionary, 3 a stream.\<close>

definition exampleDocument :: PDFDocument where
  "exampleDocument =
     \<lparr> header = exactly [37, 80],
       index = [(forNumbers 2 0, PDFOther [7]),
                (forNumbers 3 0, PDFStream [8, 9]),
                (forNumbers 1 0, PDFCatalog [])],
       maxObjNum = 3 \<rparr>"

text \<open>A document with two catalogs, the one with the smaller number entered first.\<close>

definition twoCatalogs :: PDFDocument where
  "twoCatalogs =
     \<lparr> header = exactly [37, 80],
       index = [(forNumbers 1 0, PDFCatalog [1]),
                (forNumbers 2 0, PDFCatalog [2])],
       maxObjNum = 2 \<rparr>"



text \<open>A document without a catalog.\<close>

definition noCatalog :: PDFDocument where
  "noCatalog =
     \<lparr> header = exactly [37, 80],
       index = [(forNumbers 1 0, PDFOther [7]), (forNumbers 2 0, PDFStream [8])],
       maxObjNum = 2 \<rparr>"

section \<open>Properties\<close>

subsection \<open>Auxiliary facts\<close>

lemma fold_push_units:
  "fold (\<lambda>(ref, object) arr. arr @ [indirectObject object ref]) idx acc
   = acc @ map unitOf idx"
  by (induction idx arbitrary: acc) (auto simp: unitOf_def indirectObject_def)

lemma sortIndex_eq:
  "sortIndex idx = (sort_key (\<lambda>u. objectNumber (reference u)) (map unitOf idx), idx)"
  by (simp add: sortIndex_def fold_push_units)

lemma unitOf_sel [simp]:
  "reference (unitOf entry) = fst entry" "pdfObject (unitOf entry) = snd entry"
  by (simp_all add: unitOf_def)

lemma find_SomeD: "List.find Q xs = Some x \<Longrightarrow> x \<in> set xs \<and> Q x"
  by (induction xs) (auto split: if_splits)

lemma find_catalog_sorted_None:
  "List.find (\<lambda>u. isCatalog (pdfObject u)) (fst (sortIndex idx)) = None
   \<longleftrightarrow> catalogEntries idx = []"
  by (auto simp: sortIndex_eq find_None_iff catalogEntries_def filter_empty_conv)

lemma fold_offsets:
  "fold (\<lambda>u off. off + g u) us a = (a::nat) + sum_list (map g us)"
  by (induction us arbitrary: a) auto

lemma fold_partitionStep:
  "fold partitionStep idx (c, ss, ns) =
     ((if catalogEntries idx = [] then c else Some (fst (last (catalogEntries idx)))),
      ss @ map unitOf (streamEntries idx),
      ns @ map unitOf (nonStreamEntries idx))"
proof (induction idx arbitrary: c ss ns)
  case Nil
  then show ?case
    by (simp add: catalogEntries_def streamEntries_def nonStreamEntries_def)
next
  case (Cons entry idx)
  obtain ref object where entry: "entry = (ref, object)"
    by (cases entry)
  show ?case
    unfolding fold_Cons comp_apply entry
    by (simp add: partitionStep_def Cons.IH catalogEntries_def streamEntries_def
        nonStreamEntries_def unitOf_def indirectObject_def)
qed

lemma writeBytes_length [simp]: "length (writeBytes bs st buf) = length buf"
  by (induction bs arbitrary: st buf) auto

lemma writeBytes_nth:
  "i < length buf \<Longrightarrow>
   writeBytes bs st buf ! i
   = (if st \<le> i \<and> i < st + length bs then bs ! (i - st) else buf ! i)"
proof (induction bs arbitrary: st buf)
  case Nil
  then show ?case by auto
next
  case (Cons b bs)
  then show ?case
    by (auto simp: nth_list_update nth_Cons' Suc_diff_Suc)
qed

lemma copyBytesInto_laidOut:
  "copyBytesInto w (laidOut n pre) = laidOut n (pre @ bytes w)"
proof -
  have "writeBytes (bytes w) (min n (length pre)) (take n (pre @ replicate n 0))
        = take n ((pre @ bytes w) @ replicate n 0)"
    by (rule nth_equalityI) (auto simp: writeBytes_nth nth_append)
  then show ?thesis
    by (auto simp: copyBytesInto_def laidOut_def)
qed

lemma fold_copyBytesInto_laidOut:
  "fold (\<lambda>u rem. copyBytesInto (f u) rem) us (laidOut n pre)
   = laidOut n (pre @ concat (map (\<lambda>u. bytes (f u)) us))"
  by (induction us arbitrary: pre) (auto simp: copyBytesInto_laidOut)

lemma Uint8Array_laidOut: "(Uint8Array n, 0) = laidOut n []"
  by (simp add: Uint8Array_def laidOut_def)

lemma laidOut_exact: "length bs = n \<Longrightarrow> laidOut n bs = (bs, n)"
  by (simp add: laidOut_def)

text \<open>The two halves of each entry point, in closed form.\<close>

lemma saveToBytes_plan_state: "snd (saveToBytes_plan K s) = s"
  by (simp add: saveToBytes_plan_def sortIndex_eq error_def XRefTable_forIndirectObjects_def
      Let_def split: option.splits)

lemma saveToBytes_plan_None:
  "catalogEntries (index (doc s)) = [] \<Longrightarrow>
   saveToBytes_plan K s = (Inl (Error ''Missing PDFCatalog''), s)"
  using find_catalog_sorted_None [of "index (doc s)"]
  by (simp add: saveToBytes_plan_def sortIndex_eq error_def Let_def)

lemma saveToBytes_plan_Some:
  assumes "catalogEntries (index (doc s)) \<noteq> []"
  shows "\<exists>P found. saveToBytes_plan K s = (Inr P, s)
          \<and> List.find (\<lambda>u. isCatalog (pdfObject u)) (sortedIndex P) = Some found
          \<and> sortedIndex P = fst (sortIndex (index (doc s)))
          \<and> catalogRef P = reference found
          \<and> table P = xrefTable K (header (doc s)) (sortedIndex P)
          \<and> tableOffset P = bytesSize (header (doc s))
                + sum_list (map (\<lambda>u. bytesSize (framed K u)) (sortedIndex P))
          \<and> trailer P = PDFTrailer (tableOffset P)
                (PDFDictionary
                   [(''Size'', PDFNumber (length (index (doc s)) + 1)),
                    (''Root'', PDFReference (reference found))]
                   (index (doc s)))"
proof -
  from assms obtain found where
    found: "List.find (\<lambda>u. isCatalog (pdfObject u)) (fst (sortIndex (index (doc s))))
            = Some found"
    using find_catalog_sorted_None [of "index (doc s)"] by auto
  then show ?thesis
    by (simp add: saveToBytes_plan_def sortIndex_eq XRefTable_forIndirectObjects_def
        fold_offsets Let_def)
qed

lemma saveToBytes_exec_Inl:
  "saveToBytes_plan K s = (Inl e, s') \<Longrightarrow> saveToBytes_exec K s = (Inl e, s')"
  by (simp add: saveToBytes_exec_def)

lemma saveToBytes_exec_Inr:
  "saveToBytes_plan K s = (Inr P, s') \<Longrightarrow>
   saveToBytes_exec K s =
     (Inr (laidOut (tableOffset P + bytesSize (table P)
                    + bytesSize (trailerSection K (trailer P)))
             (bytes (header (doc s')) @ concat (map (\<lambda>u. bytes (framed K u)) (sortedIndex P))
              @ bytes (table P) @ bytes (trailerSection K (trailer P)))),
      s'\<lparr> allocated := allocated s'
            @ [tableOffset P + bytesSize (table P)
               + bytesSize (trailerSection K (trailer P))] \<rparr>)"
  by (simp add: saveToBytes_exec_def Uint8Array_laidOut copyBytesInto_laidOut
      fold_copyBytesInto_laidOut Let_def)

lemma saveToBytesWithObjectStreams_plan_state:
  "snd (saveToBytesWithObjectStreams_plan K s) = s"
  by (simp add: saveToBytesWithObjectStreams_plan_def fold_partitionStep error_def
      XRefStream_forIndirectObjects_def Let_def)

lemma saveToBytesWithObjectStreams_plan_None:
  "catalogEntries (index (doc s)) = [] \<Longrightarrow>
   saveToBytesWithObjectStreams_plan K s = (Inl (Error ''Missing PDFCatalog''), s)"
  by (simp add: saveToBytesWithObjectStreams_plan_def fold_partitionStep error_def Let_def)

lemma saveToBytesWithObjectStreams_plan_Some:
  assumes "catalogEntries (index (doc s)) \<noteq> []"
  shows "\<exists>P. saveToBytesWithObjectStreams_plan K s = (Inr P, s)
          \<and> pdfCatalogRef P = fst (last (catalogEntries (index (doc s))))
          \<and> streamObjects P
              = map unitOf (streamEntries (index (doc s))) @ [objectStreamIndObj P]
          \<and> nonStreamObjects P = map unitOf (nonStreamEntries (index (doc s)))
          \<and> objectStreamIndObj P
              = \<lparr> reference = \<lparr> objectNumber = plusOne (maxObjNum (doc s)),
                                 generationNumber = 0 \<rparr>,
                  pdfObject = encodeObjectStream K (index (doc s)) (nonStreamObjects P) \<rparr>
          \<and> offset P = bytesSize (header (doc s))
                + sum_list (map (\<lambda>u. bytesSize (framed K u)) (streamObjects P))
          \<and> xrefStream P
              = xrefStreamSection K (header (doc s)) (streamObjects P)
                  (objectStreamIndObj P) (index (doc s)) (pdfCatalogRef P)
          \<and> trailerX P = trailerXSection K (offset P)"
  using assms
  by (simp add: saveToBytesWithObjectStreams_plan_def fold_partitionStep Let_def
      XRefStream_forIndirectObjects_def fold_offsets indirectObject_def forNumbers_def)

lemma saveToBytesWithObjectStreams_exec_Inl:
  "saveToBytesWithObjectStreams_plan K s = (Inl e, s') \<Longrightarrow>
   saveToBytesWithObjectStreams_exec K s = (Inl e, s')"
  by (simp add: saveToBytesWithObjectStreams_exec_def)

lemma saveToBytesWithObjectStreams_exec_Inr:
  "saveToBytesWithObjectStreams_plan K s = (Inr P, s') \<Longrightarrow>
   saveToBytesWithObjectStreams_exec K s =
     (Inr (laidOut (offset P + bytesSize (xrefStream P) + bytesSize (trailerX P))
             (bytes (header (doc s'))
              @ concat (map (\<lambda>u. bytes (framed K u)) (streamObjects P))
              @ bytes (xrefStream P) @ bytes (trailerX P))),
      s'\<lparr> allocated := allocated s'
            @ [offset P + bytesSize (xrefStream P) + bytesSize (trailerX P)] \<rparr>)"
  by (simp add: saveToBytesWithObjectStreams_exec_def Uint8Array_laidOut
      copyBytesInto_laidOut fold_copyBytesInto_laidOut Let_def)

lemma enter_sel [simp]: "doc (enter pdfDoc) = pdfDoc" "allocated (enter pdfDoc) = []"
  by (simp_all add: enter_def)

lemma run_missing_catalog:
  "catalogEntries (index (doc s)) = [] \<Longrightarrow>
   run entry K s = (Inl (Error ''Missing PDFCatalog''), s)"
  by (cases entry)
    (simp_all add: saveToBytes_exec_Inl saveToBytes_plan_None
      saveToBytesWithObjectStreams_exec_Inl saveToBytesWithObjectStreams_plan_None)

lemma call_run: "call entry K pdfDoc = map_sum id fst (fst (run entry K (enter pdfDoc)))"
  by (cases entry) (simp_all add: saveToBytes_def saveToBytesWithObjectStreams_def)

lemma run_with_catalog:
  assumes "catalogEntries (index (doc s)) \<noteq> []"
  shows "\<exists>buffer cursor. fst (run entry K s) = Inr (buffer, cursor)"
proof (cases entry)
  case SaveToBytes
  from saveToBytes_plan_Some [OF assms, of K] obtain P where
    "saveToBytes_plan K s = (Inr P, s)" by blast
  from saveToBytes_exec_Inr [OF this] show ?thesis
    by (simp add: SaveToBytes laidOut_def)
next
  case SaveToBytesWithObjectStreams
  from saveToBytesWithObjectStreams_plan_Some [OF assms, of K] obtain P where
    "saveToBytesWithObjectStreams_plan K s = (Inr P, s)" by blast
  from saveToBytesWithObjectStreams_exec_Inr [OF this] show ?thesis
    by (simp add: SaveToBytesWithObjectStreams laidOut_def)
qed

lemma run_Inr_catalog:
  "fst (run entry K s) = Inr r \<Longrightarrow> catalogEntries (index (doc s)) \<noteq> []"
  using run_missing_catalog [of s entry K] by auto

text \<open>The concrete documents.\<close>

lemma noCatalog_catalogEntries: "catalogEntries (index noCatalog) = []"
  by (simp add: noCatalog_def catalogEntries_def)

lemma exampleDocument_catalogEntries:
  "catalogEntries (index exampleDocument) = [(forNumbers 1 0, PDFCatalog [])]"
  by (simp add: exampleDocument_def catalogEntries_def)

lemma twoCatalogs_catalogEntries:
  "catalogEntries (index twoCatalogs)
   = [(forNumbers 1 0, PDFCatalog [1]), (forNumbers 2 0, PDFCatalog [2])]"
  by (simp add: twoCatalogs_def catalogEntries_def)

lemma plusOne_example: "plusOne 3 = 4"
  by (simp add: plusOne_def)

lemma example_compact_run:
  "fst (run SaveToBytesWithObjectStreams exampleCollaborators (enter exampleDocument))
   = Inr ([37, 80, 3, 8, 9, 4, 2, 1, 88, 1, 2, 8], 12)"
  by (simp add: saveToBytesWithObjectStreams_exec_def saveToBytesWithObjectStreams_plan_def
      partitionStep_def Let_def enter_def plusOne_example error_def
      exampleDocument_def exampleCollaborators_def indirectObject_def forNumbers_def
      XRefStream_forIndirectObjects_def exactly_def Uint8Array_def copyBytesInto_def)

lemma exactSizes_example: "exactSizes exampleCollaborators exampleDocument"
proof -
  have "exact (exampleTrailer t)" for t
  proof (cases t)
    case (PDFTrailer off dict)
    then show ?thesis by (cases dict) (simp add: exact_def exactly_def)
  qed
  then show ?thesis
    by (simp add: exactSizes_def exampleCollaborators_def exampleDocument_def exact_def
        exactly_def)
qed

subsection \<open>The missing catalog\<close>

text \<open>
  C1. When the index holds no catalog, each of the two entry points throws
  \<open>Missing PDFCatalog\<close>: the call ends with that error, it has allocated no output
  buffer, and it returns no buffer.
\<close>

theorem missing_catalog_is_fatal:
  assumes "catalogEntries (index pdfDoc) = []"
  shows "fst (run entry K (enter pdfDoc)) = Inl (Error ''Missing PDFCatalog'')
         \<and> allocated (snd (run entry K (enter pdfDoc))) = []
         \<and> call entry K pdfDoc = Inl (Error ''Missing PDFCatalog'')"
  using assms by (simp add: call_run run_missing_catalog)

theorem missing_catalog_is_fatal_witness:
  "catalogEntries (index noCatalog) = []
   \<and> call SaveToBytes exampleCollaborators noCatalog = Inl (Error ''Missing PDFCatalog'')
   \<and> call SaveToBytesWithObjectStreams exampleCollaborators noCatalog
       = Inl (Error ''Missing PDFCatalog'')
   \<and> allocated (snd (run SaveToBytes exampleCollaborators (enter noCatalog))) = []
   \<and> allocated (snd (run SaveToBytesWithObjectStreams exampleCollaborators
                        (enter noCatalog))) = []"
  using noCatalog_catalogEntries
    missing_catalog_is_fatal [OF noCatalog_catalogEntries, of SaveToBytes exampleCollaborators]
    missing_catalog_is_fatal [OF noCatalog_catalogEntries,
      of SaveToBytesWithObjectStreams exampleCollaborators]
  by blast

subsection \<open>The trailer of the classic path\<close>

text \<open>
  C2. When the index holds a catalog, \<open>saveToBytes\<close> builds a trailer whose dictionary
  has \<open>Size\<close> equal to the number of entries of the index plus one, and \<open>Root\<close> equal
  to the reference of the catalog that \<open>find\<close> meets first in the sorted sequence (the
  result of \<open>sortIndex\<close>, in ascending order of object number), an entry of the index.
\<close>

theorem classic_trailer_dictionary:
  assumes "catalogEntries (index pdfDoc) \<noteq> []"
  shows "\<exists>P found.
           fst (saveToBytes_plan K (enter pdfDoc)) = Inr P
           \<and> List.find (\<lambda>u. isCatalog (pdfObject u)) (sortedIndex P) = Some found
           \<and> sortedIndex P = fst (sortIndex (index pdfDoc))
           \<and> sorted (map (\<lambda>u. objectNumber (reference u)) (sortedIndex P))
           \<and> (reference found, pdfObject found) \<in> set (index pdfDoc)
           \<and> isCatalog (pdfObject found)
           \<and> trailer P =
               PDFTrailer (tableOffset P)
                 (PDFDictionary
                    [(''Size'', PDFNumber (length (index pdfDoc) + 1)),
                     (''Root'', PDFReference (reference found))]
                    (index pdfDoc))"
proof -
  from assms have "catalogEntries (index (doc (enter pdfDoc))) \<noteq> []" by simp
  from saveToBytes_plan_Some [OF this, of K] obtain P found where
    plan: "saveToBytes_plan K (enter pdfDoc) = (Inr P, enter pdfDoc)"
    and found: "List.find (\<lambda>u. isCatalog (pdfObject u)) (sortedIndex P) = Some found"
    and sorted_idx: "sortedIndex P = fst (sortIndex (index pdfDoc))"
    and trl: "trailer P = PDFTrailer (tableOffset P)
                (PDFDictionary
                   [(''Size'', PDFNumber (length (index pdfDoc) + 1)),
                    (''Root'', PDFReference (reference found))]
                   (index pdfDoc))"
    by auto
  from find_SomeD [OF found]
  have "found \<in> set (map unitOf (index pdfDoc))" and cat: "isCatalog (pdfObject found)"
    by (simp_all add: sorted_idx sortIndex_eq)
  then have "(reference found, pdfObject found) \<in> set (index pdfDoc)"
    by auto
  moreover have "sorted (map (\<lambda>u. objectNumber (reference u)) (sortedIndex P))"
    by (simp add: sorted_idx sortIndex_eq)
  ultimately show ?thesis
    using plan found sorted_idx cat trl by simp
qed

theorem classic_trailer_dictionary_witness:
  "catalogEntries (index exampleDocument) \<noteq> []
   \<and> (\<exists>P. fst (saveToBytes_plan exampleCollaborators (enter exampleDocument)) = Inr P
         \<and> trailer P =
             PDFTrailer (tableOffset P)
               (PDFDictionary
                  [(''Size'', PDFNumber 4),
                   (''Root'', PDFReference \<lparr> objectNumber = 1, generationNumber = 0 \<rparr>)]
                  (index exampleDocument)))"
proof -
  have h: "catalogEntries (index exampleDocument) \<noteq> []"
    by (simp add: exampleDocument_catalogEntries)
  have first: "List.find (\<lambda>u. isCatalog (pdfObject u)) (fst (sortIndex (index exampleDocument)))
        = Some \<lparr> reference = \<lparr> objectNumber = 1, generationNumber = 0 \<rparr>,
                 pdfObject = PDFCatalog [] \<rparr>"
    by code_simp
  have size: "length (index exampleDocument) + 1 = 4"
    by (simp add: exampleDocument_def)
  from classic_trailer_dictionary [OF h, of exampleCollaborators] obtain P found where
    "fst (saveToBytes_plan exampleCollaborators (enter exampleDocument)) = Inr P"
    "List.find (\<lambda>u. isCatalog (pdfObject u)) (sortedIndex P) = Some found"
    "sortedIndex P = fst (sortIndex (index exampleDocument))"
    "trailer P =
       PDFTrailer (tableOffset P)
         (PDFDictionary
            [(''Size'', PDFNumber (length (index exampleDocument) + 1)),
             (''Root'', PDFReference (reference found))]
            (index exampleDocument))"
    by blast
  with first size h show ?thesis
    by auto
qed

subsection \<open>sortIndex\<close>

text \<open>
  C3. For every index, \<open>sortIndex\<close> returns the units of the entries of the index, one
  for each entry and with the entry's reference and object, in ascending order of object
  number; the index itself is as it was.
\<close>

theorem sortIndex_sorted_units:
  "mset (fst (sortIndex idx))
     = mset (map (\<lambda>entry. \<lparr> reference = fst entry, pdfObject = snd entry \<rparr>) idx)
   \<and> length (fst (sortIndex idx)) = length idx
   \<and> sorted (map (\<lambda>u. objectNumber (reference u)) (fst (sortIndex idx)))
   \<and> snd (sortIndex idx) = idx"
proof -
  have "unitOf = (\<lambda>entry. \<lparr> reference = fst entry, pdfObject = snd entry \<rparr>)"
    by (rule ext) (simp add: unitOf_def)
  then show ?thesis
    by (simp add: sortIndex_eq)
qed

theorem sortIndex_sorted_units_witness:
  "mset (fst (sortIndex (index exampleDocument)))
     = mset (map (\<lambda>entry. \<lparr> reference = fst entry, pdfObject = snd entry \<rparr>)
               (index exampleDocument))
   \<and> length (fst (sortIndex (index exampleDocument))) = length (index exampleDocument)
   \<and> sorted (map (\<lambda>u. objectNumber (reference u)) (fst (sortIndex (index exampleDocument))))
   \<and> snd (sortIndex (index exampleDocument)) = index exampleDocument"
  by (rule sortIndex_sorted_units)

subsection \<open>Exact sizing\<close>

lemma sum_list_exact:
  "(\<forall>u. exact (f u)) \<Longrightarrow>
   sum_list (map (\<lambda>u. bytesSize (f u)) us) = length (concat (map (\<lambda>u. bytes (f u)) us))"
  by (induction us) (simp_all add: exact_def)

lemma saveToBytes_exact:
  assumes sizes: "exactSizes K pdfDoc"
    and ok: "fst (saveToBytes_exec K (enter pdfDoc)) = Inr (buffer, cursor)"
  shows "\<exists>P. saveToBytes_plan K (enter pdfDoc) = (Inr P, enter pdfDoc)
          \<and> saveToBytes_exec K (enter pdfDoc)
              = (Inr (buffer, length buffer), (enter pdfDoc)\<lparr> allocated := [length buffer] \<rparr>)
          \<and> cursor = length buffer
          \<and> buffer = bytes (header pdfDoc)
                @ concat (map (\<lambda>u. bytes (framed K u)) (sortedIndex P))
                @ bytes (table P) @ bytes (trailerSection K (trailer P))
          \<and> length buffer = bytesSize (header pdfDoc)
                + sum_list (map (\<lambda>u. bytesSize (framed K u)) (sortedIndex P))
                + bytesSize (table P) + bytesSize (trailerSection K (trailer P))"
proof -
  from ok have "catalogEntries (index (doc (enter pdfDoc))) \<noteq> []"
    using run_Inr_catalog [of SaveToBytes K "enter pdfDoc"] by simp
  from saveToBytes_plan_Some [OF this, of K] obtain P where
    plan: "saveToBytes_plan K (enter pdfDoc) = (Inr P, enter pdfDoc)"
    and off: "tableOffset P = bytesSize (header pdfDoc)
                + sum_list (map (\<lambda>u. bytesSize (framed K u)) (sortedIndex P))"
    by auto
  let ?n = "tableOffset P + bytesSize (table P) + bytesSize (trailerSection K (trailer P))"
  let ?c = "bytes (header pdfDoc) @ concat (map (\<lambda>u. bytes (framed K u)) (sortedIndex P))
            @ bytes (table P) @ bytes (trailerSection K (trailer P))"
  have tbl: "table P = xrefTable K (header pdfDoc) (sortedIndex P)"
    using saveToBytes_plan_Some [of "enter pdfDoc" K] plan
      \<open>catalogEntries (index (doc (enter pdfDoc))) \<noteq> []\<close> by auto
  from sizes have "exact (header pdfDoc)" "\<forall>u. exact (framed K u)"
    "exact (table P)" "exact (trailerSection K (trailer P))"
    by (simp_all add: exactSizes_def tbl)
  then have len: "length ?c = ?n"
    by (simp add: off sum_list_exact) (simp add: exact_def)
  have "saveToBytes_exec K (enter pdfDoc)
        = (Inr (laidOut ?n ?c), (enter pdfDoc)\<lparr> allocated := [?n] \<rparr>)"
    using saveToBytes_exec_Inr [OF plan] by simp
  then have exec: "saveToBytes_exec K (enter pdfDoc)
        = (Inr (?c, ?n), (enter pdfDoc)\<lparr> allocated := [?n] \<rparr>)"
    by (simp add: laidOut_exact [OF len])
  with ok have "buffer = ?c" "cursor = ?n"
    by simp_all
  with plan exec len off show ?thesis
    by simp
qed

lemma saveToBytesWithObjectStreams_exact:
  assumes sizes: "exactSizes K pdfDoc"
    and ok: "fst (saveToBytesWithObjectStreams_exec K (enter pdfDoc)) = Inr (buffer, cursor)"
  shows "\<exists>P. saveToBytesWithObjectStreams_plan K (enter pdfDoc) = (Inr P, enter pdfDoc)
          \<and> saveToBytesWithObjectStreams_exec K (enter pdfDoc)
              = (Inr (buffer, length buffer), (enter pdfDoc)\<lparr> allocated := [length buffer] \<rparr>)
          \<and> cursor = length buffer
          \<and> buffer = bytes (header pdfDoc)
                @ concat (map (\<lambda>u. bytes (framed K u)) (streamObjects P))
                @ bytes (xrefStream P) @ bytes (trailerX P)
          \<and> length buffer = bytesSize (header pdfDoc)
                + sum_list (map (\<lambda>u. bytesSize (framed K u)) (streamObjects P))
                + bytesSize (xrefStream P) + bytesSize (trailerX P)"
proof -
  from ok have "catalogEntries (index (doc (enter pdfDoc))) \<noteq> []"
    using run_Inr_catalog [of SaveToBytesWithObjectStreams K "enter pdfDoc"] by simp
  from saveToBytesWithObjectStreams_plan_Some [OF this, of K] obtain P where
    plan: "saveToBytesWithObjectStreams_plan K (enter pdfDoc) = (Inr P, enter pdfDoc)"
    and off: "offset P = bytesSize (header pdfDoc)
                + sum_list (map (\<lambda>u. bytesSize (framed K u)) (streamObjects P))"
    and xref: "xrefStream P
              = xrefStreamSection K (header pdfDoc) (streamObjects P)
                  (objectStreamIndObj P) (index pdfDoc) (pdfCatalogRef P)"
    and trl: "trailerX P = trailerXSection K (offset P)"
    by auto
  let ?n = "offset P + bytesSize (xrefStream P) + bytesSize (trailerX P)"
  let ?c = "bytes (header pdfDoc) @ concat (map (\<lambda>u. bytes (framed K u)) (streamObjects P))
            @ bytes (xrefStream P) @ bytes (trailerX P)"
  from sizes have "exact (header pdfDoc)" "\<forall>u. exact (framed K u)"
    "exact (xrefStream P)" "exact (trailerX P)"
    by (simp_all add: exactSizes_def xref trl)
  then have len: "length ?c = ?n"
    by (simp add: off sum_list_exact) (simp add: exact_def)
  have "saveToBytesWithObjectStreams_exec K (enter pdfDoc)
        = (Inr (laidOut ?n ?c), (enter pdfDoc)\<lparr> allocated := [?n] \<rparr>)"
    using saveToBytesWithObjectStreams_exec_Inr [OF plan] by simp
  then have exec: "saveToBytesWithObjectStreams_exec K (enter pdfDoc)
        = (Inr (?c, ?n), (enter pdfDoc)\<lparr> allocated := [?n] \<rparr>)"
    by (simp add: laidOut_exact [OF len])
  with ok have "buffer = ?c" "cursor = ?n"
    by simp_all
  with plan exec len off show ?thesis
    by simp
qed

text \<open>
  C4. Let every collaborator report as its size the number of bytes it writes. For a call
  of either entry point that returns a buffer: the length of the buffer is the sum of the
  reported sizes of the sections written (header, body units, cross-reference table or
  stream, trailer); the buffer is exactly these sections' bytes one after the other; the
  last \<open>remaining\<close> view starts at the end of the buffer; and one buffer of that size
  was allocated.
\<close>

theorem exact_sizing:
  assumes "exactSizes K pdfDoc"
    and "fst (run entry K (enter pdfDoc)) = Inr (buffer, cursor)"
  shows "length buffer = sum_list (map bytesSize (written entry K pdfDoc))
         \<and> buffer = concat (map bytes (written entry K pdfDoc))
         \<and> cursor = length buffer
         \<and> allocated (snd (run entry K (enter pdfDoc))) = [length buffer]
         \<and> call entry K pdfDoc = Inr buffer"
proof (cases entry)
  case SaveToBytes
  with assms have "fst (saveToBytes_exec K (enter pdfDoc)) = Inr (buffer, cursor)"
    by simp
  from saveToBytes_exact [OF assms(1) this] show ?thesis
    by (auto simp: SaveToBytes saveToBytes_def comp_def)
next
  case SaveToBytesWithObjectStreams
  with assms have
    "fst (saveToBytesWithObjectStreams_exec K (enter pdfDoc)) = Inr (buffer, cursor)"
    by simp
  from saveToBytesWithObjectStreams_exact [OF assms(1) this] show ?thesis
    by (auto simp: SaveToBytesWithObjectStreams saveToBytesWithObjectStreams_def comp_def)
qed

theorem exact_sizing_witness:
  "exactSizes exampleCollaborators exampleDocument
   \<and> fst (run SaveToBytes exampleCollaborators (enter exampleDocument))
       = Inr ([37, 80, 1, 2, 7, 3, 8, 9, 120, 120, 120, 120, 116, 8, 2], 15)
   \<and> sum_list (map bytesSize (written SaveToBytes exampleCollaborators exampleDocument)) = 15
   \<and> concat (map bytes (written SaveToBytes exampleCollaborators exampleDocument))
       = [37, 80, 1, 2, 7, 3, 8, 9, 120, 120, 120, 120, 116, 8, 2]
   \<and> allocated (snd (run SaveToBytes exampleCollaborators (enter exampleDocument))) = [15]
   \<and> fst (run SaveToBytesWithObjectStreams exampleCollaborators (enter exampleDocument))
       = Inr ([37, 80, 3, 8, 9, 4, 2, 1, 88, 1, 2, 8], 12)
   \<and> sum_list (map bytesSize
        (written SaveToBytesWithObjectStreams exampleCollaborators exampleDocument)) = 12
   \<and> concat (map bytes
        (written SaveToBytesWithObjectStreams exampleCollaborators exampleDocument))
       = [37, 80, 3, 8, 9, 4, 2, 1, 88, 1, 2, 8]
   \<and> allocated (snd (run SaveToBytesWithObjectStreams exampleCollaborators
                        (enter exampleDocument))) = [12]"
proof -
  have classic: "fst (run SaveToBytes exampleCollaborators (enter exampleDocument))
       = Inr ([37, 80, 1, 2, 7, 3, 8, 9, 120, 120, 120, 120, 116, 8, 2], 15)"
    by code_simp
  have compact:
    "fst (run SaveToBytesWithObjectStreams exampleCollaborators (enter exampleDocument))
       = Inr ([37, 80, 3, 8, 9, 4, 2, 1, 88, 1, 2, 8], 12)"
    by (rule example_compact_run)
  from exact_sizing [OF exactSizes_example classic] exact_sizing [OF exactSizes_example compact]
    exactSizes_example classic compact
  show ?thesis
    by simp
qed

subsection \<open>The compact path: object stream, partition, file order\<close>

lemma saveToBytesWithObjectStreams_plan_InrD:
  assumes "fst (saveToBytesWithObjectStreams_plan K s) = Inr P"
  shows "saveToBytesWithObjectStreams_plan K s = (Inr P, s)
         \<and> catalogEntries (index (doc s)) \<noteq> []
         \<and> pdfCatalogRef P = fst (last (catalogEntries (index (doc s))))
         \<and> streamObjects P
             = map unitOf (streamEntries (index (doc s))) @ [objectStreamIndObj P]
         \<and> nonStreamObjects P = map unitOf (nonStreamEntries (index (doc s)))
         \<and> objectStreamIndObj P
             = \<lparr> reference = \<lparr> objectNumber = plusOne (maxObjNum (doc s)),
                                generationNumber = 0 \<rparr>,
                 pdfObject = encodeObjectStream K (index (doc s)) (nonStreamObjects P) \<rparr>
         \<and> offset P = bytesSize (header (doc s))
               + sum_list (map (\<lambda>u. bytesSize (framed K u)) (streamObjects P))
         \<and> xrefStream P
             = xrefStreamSection K (header (doc s)) (streamObjects P)
                 (objectStreamIndObj P) (index (doc s)) (pdfCatalogRef P)
         \<and> trailerX P = trailerXSection K (offset P)"
proof -
  have cat: "catalogEntries (index (doc s)) \<noteq> []"
    using assms saveToBytesWithObjectStreams_plan_None [of s K] by auto
  from saveToBytesWithObjectStreams_plan_Some [OF cat, of K] assms cat show ?thesis
    by auto
qed





text \<open>
  C6. In the compact path every entry of the index goes to exactly one of the two
  sequences: the streams to \<open>streamObjects\<close>, all others to \<open>nonStreamObjects\<close>,
  each in the order of the index. With the object stream appended, \<open>streamObjects\<close>
  has one element more than the index has streams, and the two sequences without that
  last element hold the units of the whole index.
\<close>

theorem partition_completeness:
  assumes "fst (saveToBytesWithObjectStreams_plan K (enter pdfDoc)) = Inr P"
  shows "streamObjects P
           = map unitOf (filter (\<lambda>entry. isStream (snd entry)) (index pdfDoc))
             @ [objectStreamIndObj P]
         \<and> nonStreamObjects P
           = map unitOf (filter (\<lambda>entry. \<not> isStream (snd entry)) (index pdfDoc))
         \<and> length (streamObjects P)
           = length (filter (\<lambda>entry. isStream (snd entry)) (index pdfDoc)) + 1
         \<and> mset (butlast (streamObjects P)) + mset (nonStreamObjects P)
           = mset (map unitOf (index pdfDoc))
         \<and> length (streamObjects P) + length (nonStreamObjects P)
           = length (index pdfDoc) + 1"
proof -
  from saveToBytesWithObjectStreams_plan_InrD [OF assms]
  have objs: "streamObjects P
              = map unitOf (filter (\<lambda>entry. isStream (snd entry)) (index pdfDoc))
                @ [objectStreamIndObj P]"
    and others: "nonStreamObjects P
              = map unitOf (filter (\<lambda>entry. \<not> isStream (snd entry)) (index pdfDoc))"
    by (simp_all add: streamEntries_def nonStreamEntries_def)
  have split: "mset (map unitOf (filter Q idx)) + mset (map unitOf (filter (\<lambda>e. \<not> Q e) idx))
               = mset (map unitOf idx)" for Q and idx :: objectIndex
    by (induction idx) simp_all
  have count: "length (filter Q idx) + length (filter (\<lambda>e. \<not> Q e) idx) = length idx"
    for Q and idx :: objectIndex
    by (induction idx) simp_all
  show ?thesis
    using split [of "\<lambda>entry. isStream (snd entry)" "index pdfDoc"]
      count [of "\<lambda>entry. isStream (snd entry)" "index pdfDoc"]
    by (simp add: objs others)
qed

theorem partition_completeness_witness:
  "\<exists>P. fst (saveToBytesWithObjectStreams_plan exampleCollaborators (enter exampleDocument))
         = Inr P
       \<and> streamObjects P = [unitOf (forNumbers 3 0, PDFStream [8, 9]), objectStreamIndObj P]
       \<and> nonStreamObjects P
           = [unitOf (forNumbers 2 0, PDFOther [7]), unitOf (forNumbers 1 0, PDFCatalog [])]
       \<and> length (streamObjects P) = 2
       \<and> length (streamObjects P) + length (nonStreamObjects P) = 4"
proof -
  have "catalogEntries (index (doc (enter exampleDocument))) \<noteq> []"
    by (simp add: exampleDocument_catalogEntries)
  from saveToBytesWithObjectStreams_plan_Some [OF this, of exampleCollaborators]
  obtain P where
    P: "fst (saveToBytesWithObjectStreams_plan exampleCollaborators (enter exampleDocument))
        = Inr P"
    by auto
  from partition_completeness [OF P] P show ?thesis
    by (auto simp: exampleDocument_def)
qed

text \<open>
  C7. When the compact path returns a buffer, the buffer holds, from offset 0 on and in
  this order: the header, the streams of the index in index order, the object stream,
  the cross-reference stream (once), the pointer trailer. The sequence \<open>streamObjects\<close>
  consists of the streams of the index and the object stream, last; the cross-reference
  stream is not among its elements.
\<close>

theorem compact_file_order:
  assumes "fst (run SaveToBytesWithObjectStreams K (enter pdfDoc)) = Inr (buffer, cursor)"
  shows "\<exists>P. fst (saveToBytesWithObjectStreams_plan K (enter pdfDoc)) = Inr P
           \<and> streamObjects P
               = map unitOf (filter (\<lambda>entry. isStream (snd entry)) (index pdfDoc))
                 @ [objectStreamIndObj P]
           \<and> length buffer = offset P + bytesSize (xrefStream P) + bytesSize (trailerX P)
           \<and> (buffer, cursor)
               = laidOut (length buffer)
                   (bytes (header pdfDoc)
                    @ concat (map (\<lambda>u. bytes (framed K u))
                                (map unitOf (filter (\<lambda>entry. isStream (snd entry))
                                               (index pdfDoc))))
                    @ bytes (framed K (objectStreamIndObj P))
                    @ bytes (xrefStream P)
                    @ bytes (trailerX P))"
proof -
  from assms have "catalogEntries (index (doc (enter pdfDoc))) \<noteq> []"
    by (rule run_Inr_catalog)
  from saveToBytesWithObjectStreams_plan_Some [OF this, of K] obtain P where
    plan: "saveToBytesWithObjectStreams_plan K (enter pdfDoc) = (Inr P, enter pdfDoc)"
    and objs: "streamObjects P
               = map unitOf (streamEntries (index pdfDoc)) @ [objectStreamIndObj P]"
    by auto
  let ?n = "offset P + bytesSize (xrefStream P) + bytesSize (trailerX P)"
  from saveToBytesWithObjectStreams_exec_Inr [OF plan] assms
  have out: "(buffer, cursor)
        = laidOut ?n
            (bytes (header pdfDoc)
             @ concat (map (\<lambda>u. bytes (framed K u)) (streamObjects P))
             @ bytes (xrefStream P) @ bytes (trailerX P))"
    by simp
  then have "length buffer = ?n"
    by (simp add: laidOut_def)
  with out plan objs show ?thesis
    by (simp add: streamEntries_def)
qed

theorem compact_file_order_witness:
  "fst (run SaveToBytesWithObjectStreams exampleCollaborators (enter exampleDocument))
     = Inr ([37, 80, 3, 8, 9, 4, 2, 1, 88, 1, 2, 8], 12)
   \<and> (\<exists>P. fst (saveToBytesWithObjectStreams_plan exampleCollaborators (enter exampleDocument))
            = Inr P
          \<and> streamObjects P
              = map unitOf (filter (\<lambda>entry. isStream (snd entry)) (index exampleDocument))
                @ [objectStreamIndObj P]
          \<and> length [37, 80, 3, 8, 9, 4, 2, 1, 88, 1, 2, 8 :: byte]
              = offset P + bytesSize (xrefStream P) + bytesSize (trailerX P)
          \<and> ([37, 80, 3, 8, 9, 4, 2, 1, 88, 1, 2, 8], 12)
              = laidOut (length [37, 80, 3, 8, 9, 4, 2, 1, 88, 1, 2, 8 :: byte])
                  (bytes (header exampleDocument)
                   @ concat (map (\<lambda>u. bytes (framed exampleCollaborators u))
                               (map unitOf (filter (\<lambda>entry. isStream (snd entry))
                                              (index exampleDocument))))
                   @ bytes (framed exampleCollaborators (objectStreamIndObj P))
                   @ bytes (xrefStream P)
                   @ bytes (trailerX P)))"
proof -
  have r: "fst (run SaveToBytesWithObjectStreams exampleCollaborators (enter exampleDocument))
     = Inr ([37, 80, 3, 8, 9, 4, 2, 1, 88, 1, 2, 8], 12)"
    by (rule example_compact_run)
  from r compact_file_order [OF r] show ?thesis
    by (rule conjI)
qed

subsection \<open>The read-only index\<close>

lemma saveToBytes_exec_doc: "doc (snd (saveToBytes_exec K s)) = doc s"
proof (cases "fst (saveToBytes_plan K s)")
  case (Inl e)
  with saveToBytes_plan_state [of K s] have "saveToBytes_plan K s = (Inl e, s)"
    by (simp add: prod_eq_iff)
  then show ?thesis
    by (simp add: saveToBytes_exec_Inl)
next
  case (Inr P)
  with saveToBytes_plan_state [of K s] have "saveToBytes_plan K s = (Inr P, s)"
    by (simp add: prod_eq_iff)
  then show ?thesis
    by (simp add: saveToBytes_exec_Inr)
qed

lemma saveToBytesWithObjectStreams_exec_doc:
  "doc (snd (saveToBytesWithObjectStreams_exec K s)) = doc s"
proof (cases "fst (saveToBytesWithObjectStreams_plan K s)")
  case (Inl e)
  with saveToBytesWithObjectStreams_plan_state [of K s]
  have "saveToBytesWithObjectStreams_plan K s = (Inl e, s)"
    by (simp add: prod_eq_iff)
  then show ?thesis
    by (simp add: saveToBytesWithObjectStreams_exec_Inl)
next
  case (Inr P)
  with saveToBytesWithObjectStreams_plan_state [of K s]
  have "saveToBytesWithObjectStreams_plan K s = (Inr P, s)"
    by (simp add: prod_eq_iff)
  then show ?thesis
    by (simp add: saveToBytesWithObjectStreams_exec_Inr)
qed

lemma run_doc: "doc (snd (run entry K s)) = doc s"
  by (cases entry) (simp_all add: saveToBytes_exec_doc saveToBytesWithObjectStreams_exec_doc)

text \<open>
  C9. Neither entry point changes the index of the document: whether the call returns a
  buffer or throws, the index (and the whole document) is afterwards what it was before.
  In particular the compact path adds no entry for its object stream.
\<close>

theorem index_is_read_only:
  "index (doc (snd (run entry K s))) = index (doc s)
   \<and> doc (snd (run entry K s)) = doc s"
  by (simp add: run_doc)

theorem index_is_read_only_witness:
  "index (doc (snd (run SaveToBytes exampleCollaborators (enter exampleDocument))))
     = index exampleDocument
   \<and> index (doc (snd (run SaveToBytesWithObjectStreams exampleCollaborators
                        (enter exampleDocument))))
     = index exampleDocument
   \<and> index (doc (snd (run SaveToBytes exampleCollaborators (enter noCatalog))))
     = index noCatalog
   \<and> index (doc (snd (run SaveToBytesWithObjectStreams exampleCollaborators
                        (enter noCatalog))))
     = index noCatalog"
  using index_is_read_only [of SaveToBytes exampleCollaborators "enter exampleDocument"]
    index_is_read_only [of SaveToBytesWithObjectStreams exampleCollaborators
      "enter exampleDocument"]
    index_is_read_only [of SaveToBytes exampleCollaborators "enter noCatalog"]
    index_is_read_only [of SaveToBytesWithObjectStreams exampleCollaborators "enter noCatalog"]
  by simp

subsection \<open>Several catalogs\<close>

lemma find_sorted_least:
  "sorted (map f xs) \<Longrightarrow> List.find Q xs = Some x \<Longrightarrow> y \<in> set xs \<Longrightarrow> Q y \<Longrightarrow> f x \<le> f y"
  by (induction xs) (auto split: if_splits)

lemma catalog_roots:
  assumes "catalogEntries (index pdfDoc) \<noteq> []"
  shows "\<exists>P Q found.
           fst (saveToBytes_plan K (enter pdfDoc)) = Inr P
           \<and> fst (saveToBytesWithObjectStreams_plan K (enter pdfDoc)) = Inr Q
           \<and> List.find (\<lambda>u. isCatalog (pdfObject u)) (fst (sortIndex (index pdfDoc)))
               = Some found
           \<and> catalogRef P = reference found
           \<and> trailer P =
               PDFTrailer (tableOffset P)
                 (PDFDictionary
                    [(''Size'', PDFNumber (length (index pdfDoc) + 1)),
                     (''Root'', PDFReference (catalogRef P))]
                    (index pdfDoc))
           \<and> catalogRef P \<in> fst ` set (catalogEntries (index pdfDoc))
           \<and> (\<forall>entry\<in>set (catalogEntries (index pdfDoc)).
                 objectNumber (catalogRef P) \<le> objectNumber (fst entry))
           \<and> pdfCatalogRef Q = fst (last (catalogEntries (index pdfDoc)))
           \<and> xrefStream Q =
               xrefStreamSection K (header pdfDoc) (streamObjects Q) (objectStreamIndObj Q)
                 (index pdfDoc) (pdfCatalogRef Q)"
proof -
  from assms have cat: "catalogEntries (index (doc (enter pdfDoc))) \<noteq> []" by simp
  from saveToBytes_plan_Some [OF cat, of K] obtain P found where
    plan: "saveToBytes_plan K (enter pdfDoc) = (Inr P, enter pdfDoc)"
    and found: "List.find (\<lambda>u. isCatalog (pdfObject u)) (sortedIndex P) = Some found"
    and sorted_idx: "sortedIndex P = fst (sortIndex (index pdfDoc))"
    and root: "catalogRef P = reference found"
    and trl: "trailer P = PDFTrailer (tableOffset P)
                (PDFDictionary
                   [(''Size'', PDFNumber (length (index pdfDoc) + 1)),
                    (''Root'', PDFReference (reference found))]
                   (index pdfDoc))"
    by auto
  from saveToBytesWithObjectStreams_plan_Some [OF cat, of K] obtain Q where
    planQ: "saveToBytesWithObjectStreams_plan K (enter pdfDoc) = (Inr Q, enter pdfDoc)"
    and rootQ: "pdfCatalogRef Q = fst (last (catalogEntries (index pdfDoc)))"
    and xref: "xrefStream Q =
               xrefStreamSection K (header pdfDoc) (streamObjects Q) (objectStreamIndObj Q)
                 (index pdfDoc) (pdfCatalogRef Q)"
    by auto
  let ?key = "\<lambda>u. objectNumber (reference u)"
  let ?sorted = "sort_key ?key (map unitOf (index pdfDoc))"
  from found have found': "List.find (\<lambda>u. isCatalog (pdfObject u)) ?sorted = Some found"
    by (simp add: sorted_idx sortIndex_eq)
  from find_SomeD [OF found']
  have "found \<in> unitOf ` set (index pdfDoc)" and "isCatalog (pdfObject found)"
    by simp_all
  then have member: "reference found \<in> fst ` set (catalogEntries (index pdfDoc))"
    by (force simp: catalogEntries_def)
  have least: "objectNumber (reference found) \<le> objectNumber (fst entry)"
    if "entry \<in> set (catalogEntries (index pdfDoc))" for entry
  proof -
    from that have "unitOf entry \<in> set ?sorted" "isCatalog (pdfObject (unitOf entry))"
      by (simp_all add: catalogEntries_def)
    with find_sorted_least [of ?key ?sorted _ found "unitOf entry", OF _ found']
    show ?thesis
      by simp
  qed
  from plan planQ found' root trl member least rootQ xref show ?thesis
    by (simp add: sortIndex_eq)
qed

text \<open>
  C10. When the index holds more than one catalog, neither entry point throws.
  \<open>saveToBytes\<close> takes as \<open>Root\<close> the reference of the first catalog of the sorted
  sequence, a catalog of the index whose object number is the smallest among the
  catalogs; \<open>saveToBytesWithObjectStreams\<close> passes on as root the reference of the
  catalog that comes last in the iteration order of the index. There is a document for
  which the two roots differ.
\<close>

theorem several_catalogs:
  assumes "1 < length (catalogEntries (index pdfDoc))"
  shows "(\<exists>buffer. call SaveToBytes K pdfDoc = Inr buffer)
         \<and> (\<exists>buffer. call SaveToBytesWithObjectStreams K pdfDoc = Inr buffer)
         \<and> (\<exists>P Q found.
               fst (saveToBytes_plan K (enter pdfDoc)) = Inr P
               \<and> fst (saveToBytesWithObjectStreams_plan K (enter pdfDoc)) = Inr Q
               \<and> List.find (\<lambda>u. isCatalog (pdfObject u)) (fst (sortIndex (index pdfDoc)))
                   = Some found
               \<and> catalogRef P = reference found
               \<and> trailer P =
                   PDFTrailer (tableOffset P)
                     (PDFDictionary
                        [(''Size'', PDFNumber (length (index pdfDoc) + 1)),
                         (''Root'', PDFReference (catalogRef P))]
                        (index pdfDoc))
               \<and> catalogRef P \<in> fst ` set (catalogEntries (index pdfDoc))
               \<and> (\<forall>entry\<in>set (catalogEntries (index pdfDoc)).
                     objectNumber (catalogRef P) \<le> objectNumber (fst entry))
               \<and> pdfCatalogRef Q = fst (last (catalogEntries (index pdfDoc)))
               \<and> xrefStream Q =
                   xrefStreamSection K (header pdfDoc) (streamObjects Q)
                     (objectStreamIndObj Q) (index pdfDoc) (pdfCatalogRef Q))
         \<and> (\<exists>d P Q.
               1 < length (catalogEntries (index d))
               \<and> fst (saveToBytes_plan K (enter d)) = Inr P
               \<and> fst (saveToBytesWithObjectStreams_plan K (enter d)) = Inr Q
               \<and> catalogRef P \<noteq> pdfCatalogRef Q)"
proof -
  from assms have cat: "catalogEntries (index pdfDoc) \<noteq> []"
    by auto
  then have cat': "catalogEntries (index (doc (enter pdfDoc))) \<noteq> []"
    by simp
  from run_with_catalog [OF cat', of SaveToBytes K]
  have classic: "\<exists>buffer. call SaveToBytes K pdfDoc = Inr buffer"
    by (auto simp: saveToBytes_def)
  from run_with_catalog [OF cat', of SaveToBytesWithObjectStreams K]
  have compact: "\<exists>buffer. call SaveToBytesWithObjectStreams K pdfDoc = Inr buffer"
    by (auto simp: saveToBytesWithObjectStreams_def)
  have two: "catalogEntries (index twoCatalogs) \<noteq> []"
    by (simp add: twoCatalogs_catalogEntries)
  from catalog_roots [OF two, of K] obtain P Q where
    P: "fst (saveToBytes_plan K (enter twoCatalogs)) = Inr P"
    and Q: "fst (saveToBytesWithObjectStreams_plan K (enter twoCatalogs)) = Inr Q"
    and member: "catalogRef P \<in> fst ` set (catalogEntries (index twoCatalogs))"
    and least: "\<forall>entry\<in>set (catalogEntries (index twoCatalogs)).
                  objectNumber (catalogRef P) \<le> objectNumber (fst entry)"
    and rootQ: "pdfCatalogRef Q = fst (last (catalogEntries (index twoCatalogs)))"
    by blast
  from member least have "catalogRef P = forNumbers 1 0"
    by (auto simp: twoCatalogs_catalogEntries forNumbers_def)
  moreover from rootQ have "pdfCatalogRef Q = forNumbers 2 0"
    by (simp add: twoCatalogs_catalogEntries)
  ultimately have "catalogRef P \<noteq> pdfCatalogRef Q"
    by (simp add: forNumbers_def)
  moreover have "1 < length (catalogEntries (index twoCatalogs))"
    by (simp add: twoCatalogs_catalogEntries)
  ultimately have differ: "\<exists>d P Q.
               1 < length (catalogEntries (index d))
               \<and> fst (saveToBytes_plan K (enter d)) = Inr P
               \<and> fst (saveToBytesWithObjectStreams_plan K (enter d)) = Inr Q
               \<and> catalogRef P \<noteq> pdfCatalogRef Q"
    using P Q by blast
  from classic compact catalog_roots [OF cat, of K] differ show ?thesis
    by (intro conjI)
qed

theorem several_catalogs_witness:
  "1 < length (catalogEntries (index twoCatalogs))
   \<and> (\<exists>buffer. call SaveToBytes exampleCollaborators twoCatalogs = Inr buffer)
   \<and> (\<exists>buffer. call SaveToBytesWithObjectStreams exampleCollaborators twoCatalogs = Inr buffer)
   \<and> (\<exists>P Q. fst (saveToBytes_plan exampleCollaborators (enter twoCatalogs)) = Inr P
          \<and> fst (saveToBytesWithObjectStreams_plan exampleCollaborators (enter twoCatalogs))
              = Inr Q
          \<and> catalogRef P = \<lparr> objectNumber = 1, generationNumber = 0 \<rparr>
          \<and> pdfCatalogRef Q = \<lparr> objectNumber = 2, generationNumber = 0 \<rparr>)"
proof -
  have h: "1 < length (catalogEntries (index twoCatalogs))"
    by (simp add: twoCatalogs_catalogEntries)
  from several_catalogs [OF h, of exampleCollaborators] obtain P Q where
    calls: "\<exists>buffer. call SaveToBytes exampleCollaborators twoCatalogs = Inr buffer"
      "\<exists>buffer. call SaveToBytesWithObjectStreams exampleCollaborators twoCatalogs = Inr buffer"
    and P: "fst (saveToBytes_plan exampleCollaborators (enter twoCatalogs)) = Inr P"
    and Q: "fst (saveToBytesWithObjectStreams_plan exampleCollaborators (enter twoCatalogs))
            = Inr Q"
    and member: "catalogRef P \<in> fst ` set (catalogEntries (index twoCatalogs))"
    and least: "\<forall>entry\<in>set (catalogEntries (index twoCatalogs)).
                  objectNumber (catalogRef P) \<le> objectNumber (fst entry)"
    and rootQ: "pdfCatalogRef Q = fst (last (catalogEntries (index twoCatalogs)))"
    by blast
  from member least have "catalogRef P = \<lparr> objectNumber = 1, generationNumber = 0 \<rparr>"
    by (auto simp: twoCatalogs_catalogEntries forNumbers_def)
  moreover from rootQ have "pdfCatalogRef Q = \<lparr> objectNumber = 2, generationNumber = 0 \<rparr>"
    by (simp add: twoCatalogs_catalogEntries forNumbers_def)
  ultimately show ?thesis
    using h calls P Q by blast
qed

end
